theory Spec2Isabelle
  imports Main "HOL-Library.Word"
begin

unbundle bit_operations_syntax

section \<open>JavaScript numbers and 32-bit operators\<close>

text \<open>
  A \<open>BitField\<close> is a JavaScript \<open>number\<close>.  The library only ever handles integral
  numbers, so a number is modelled as an \<open>int\<close>; fractional, infinite and NaN numbers are
  outside the model.  The bitwise operators of the language first convert an operand to a
  32-bit pattern (\<open>ToInt32\<close>, the value modulo \<open>2 ^ 32\<close>); \<open>&\<close>, \<open>|\<close>, \<open>^\<close>, \<open>~\<close> and
  \<open><<\<close> give back the pattern read as a signed number, \<open>>>>\<close> gives it back read as an
  unsigned one.  A shift uses the low five bits of its right operand.
\<close>

type_synonym BitField = int

definition ToInt32 :: "int \<Rightarrow> 32 word" where
  "ToInt32 n = word_of_int n"

definition js_and :: "int \<Rightarrow> int \<Rightarrow> int" where
  "js_and a b = sint (ToInt32 a AND ToInt32 b)"

definition js_or :: "int \<Rightarrow> int \<Rightarrow> int" where
  "js_or a b = sint (ToInt32 a OR ToInt32 b)"

definition js_xor :: "int \<Rightarrow> int \<Rightarrow> int" where
  "js_xor a b = sint (ToInt32 a XOR ToInt32 b)"

definition js_not :: "int \<Rightarrow> int" where
  "js_not a = sint (NOT (ToInt32 a))"

definition js_shl :: "int \<Rightarrow> int \<Rightarrow> int" where
  "js_shl a n = sint (push_bit (unat (ToInt32 n AND 31)) (ToInt32 a))"

definition js_ushr :: "int \<Rightarrow> int \<Rightarrow> int" where
  "js_ushr a n = uint (drop_bit (unat (ToInt32 n AND 31)) (ToInt32 a))"

text \<open>
  Values that can sit in a property of a named collection: a number, \<open>undefined\<close>, the
  arrow function stored under \<open>mask\<close>, or a member inherited from \<open>Object.prototype\<close>.
  \<open>ToNumber\<close> of the last three is NaN, which the 32-bit conversions turn into \<open>0\<close>.
\<close>

datatype jsvalue = Num int | Undefined | Closure | Builtin

fun ToIntegral :: "jsvalue \<Rightarrow> int" where
  "ToIntegral (Num n) = n"
| "ToIntegral Undefined = 0"
| "ToIntegral Closure = 0"
| "ToIntegral Builtin = 0"

section \<open>type.ts\<close>

text \<open>\<open>ALL\<close> is reserved syntax of HOL, so the constant carries a suffix.\<close>

definition ALL_bits :: BitField where
  "ALL_bits = js_ushr (js_not 0) 0"

definition NONE :: BitField where
  "NONE = 0"

text \<open>The values the specification calls a BitField: unsigned integers of width 32.\<close>

definition isBitField :: "int \<Rightarrow> bool" where
  "isBitField b = (0 \<le> b \<and> b < 2 ^ 32)"

section \<open>mask.ts\<close>

text \<open>
  The parameter \<open>mask\<close> is written \<open>msk\<close>: \<open>mask\<close> is a constant of the word library.

  \<open>bitMask\<close> is declared on numbers, but the \<open>mask\<close> accessor of a named collection
  hands it whatever the property lookup produced, so its argument is a \<open>jsvalue\<close>.
\<close>

definition bitMask :: "jsvalue \<Rightarrow> int" where
  "bitMask i = js_ushr (js_shl 1 (ToIntegral i)) 0"

definition checkMask :: "BitField \<Rightarrow> int \<Rightarrow> bool" where
  "checkMask bits msk = (js_and bits msk \<noteq> 0)"

definition applyMask :: "BitField \<Rightarrow> int \<Rightarrow> BitField" where
  "applyMask bits msk = js_ushr (js_or bits msk) 0"

definition clearMask :: "BitField \<Rightarrow> int \<Rightarrow> BitField" where
  "clearMask bits msk = js_and bits (js_not msk)"

definition toggleMask :: "BitField \<Rightarrow> int \<Rightarrow> BitField" where
  "toggleMask bits msk = js_ushr (js_xor bits msk) 0"

section \<open>util.ts: single bits\<close>

definition getBit :: "BitField \<Rightarrow> int \<Rightarrow> bool" where
  "getBit bits index = checkMask bits (bitMask (Num index))"

definition setBitOn :: "BitField \<Rightarrow> int \<Rightarrow> BitField" where
  "setBitOn bits index = applyMask bits (bitMask (Num index))"

definition setBitOff :: "BitField \<Rightarrow> int \<Rightarrow> BitField" where
  "setBitOff bits index = clearMask bits (bitMask (Num index))"

definition setBit :: "BitField \<Rightarrow> int \<Rightarrow> bool \<Rightarrow> BitField" where
  "setBit bits index v = (if v then setBitOn bits index else setBitOff bits index)"

definition toggleBit :: "BitField \<Rightarrow> int \<Rightarrow> BitField" where
  "toggleBit bits index = toggleMask bits (bitMask (Num index))"

section \<open>util.ts: formatting and analysis\<close>

text \<open>
  \<open>Number.prototype.toString(2)\<close> on an integral number: the binary digits, most
  significant first, a single \<open>0\<close> for zero and a leading minus sign for a negative number.
\<close>

fun binaryDigits :: "nat \<Rightarrow> string" where
  "binaryDigits n =
     (if n = 0 then []
      else binaryDigits (n div 2) @ [if odd n then CHR ''1'' else CHR ''0''])"

declare binaryDigits.simps [simp del]

definition toString2 :: "int \<Rightarrow> string" where
  "toString2 n =
     (if n = 0 then ''0''
      else if n < 0 then CHR ''-'' # binaryDigits (nat (- n))
      else binaryDigits (nat n))"

text \<open>
  \<open>String.prototype.padStart\<close> with a one-character filler: the string itself when it
  already has the target length or more, otherwise the filler repeated in front of it.
\<close>

definition padStart :: "string \<Rightarrow> int \<Rightarrow> char \<Rightarrow> string" where
  "padStart s targetLength c =
     (if nat targetLength \<le> length s then s
      else replicate (nat targetLength - length s) c @ s)"

definition toBinaryString :: "BitField \<Rightarrow> int \<Rightarrow> string" where
  "toBinaryString bits len = padStart (toString2 bits) len CHR ''0''"

text \<open>
  The loop of \<open>countBits\<close>, with its two variables as arguments.  The loop test
  \<open>while (value)\<close> holds for every number but zero.
\<close>

function countBits_loop :: "int \<Rightarrow> int \<Rightarrow> int" where
  "countBits_loop count val =
     (if val \<noteq> 0 then countBits_loop (count + js_and val 1) (js_ushr val 1) else count)"
  by pat_completeness auto

termination countBits_loop
proof (relation "measure (\<lambda>(count, val). if 0 \<le> val \<and> val < 2 ^ 32 then nat val else 2 ^ 32)")
  show "wf (measure (\<lambda>(count, val). if 0 \<le> val \<and> val < 2 ^ 32 then nat val else 2 ^ 32))"
    by simp
next
  fix count val :: int
  assume nz: "val \<noteq> 0"
  have "unat (ToInt32 1 AND 31) = 1"
    by (simp add: ToInt32_def)
  then have "js_ushr val 1 = uint (drop_bit 1 (ToInt32 val))"
    by (simp add: js_ushr_def)
  also have "\<dots> = uint (ToInt32 val) div 2"
    by (simp add: drop_bit_eq_div uint_div_distrib)
  finally have shift: "js_ushr val 1 = (val mod 2 ^ 32) div 2"
    by (simp add: ToInt32_def uint_word_of_int)
  have lo: "0 \<le> (val mod 2 ^ 32) div 2"
    by simp
  have "val mod 2 ^ 32 < 2 ^ 32"
    by simp
  then have hi: "(val mod 2 ^ 32) div 2 < 2 ^ 31"
    by simp
  show "((count + js_and val 1, js_ushr val 1), (count, val))
      \<in> measure (\<lambda>(count, val). if 0 \<le> val \<and> val < 2 ^ 32 then nat val else 2 ^ 32)"
  proof (cases "0 \<le> val \<and> val < 2 ^ 32")
    case True
    then have "(val mod 2 ^ 32) div 2 = val div 2"
      by simp
    moreover have "val div 2 < val" "0 < val"
      using True nz by linarith+
    ultimately show ?thesis
      using True lo hi by (simp add: shift)
  next
    case False
    have "nat ((val mod 2 ^ 32) div 2) < 2 ^ 32"
      using lo hi by (simp add: nat_less_iff)
    then show ?thesis
      using False lo hi by (auto simp: shift)
  qed
qed

declare countBits_loop.simps [simp del]

definition countBits :: "BitField \<Rightarrow> int" where
  "countBits bits = countBits_loop 0 bits"

text \<open>
  The same loop with a bound on the number of iterations: \<open>None\<close> when the value is still
  non-zero after \<open>n\<close> runs of the body.
\<close>

fun countBits_fuel :: "nat \<Rightarrow> int \<Rightarrow> int \<Rightarrow> int option" where
  "countBits_fuel n count val =
     (if val \<noteq> 0
      then (case n of
              0 \<Rightarrow> None
            | Suc m \<Rightarrow> countBits_fuel m (count + js_and val 1) (js_ushr val 1))
      else Some count)"

declare countBits_fuel.simps [simp del]

definition isSingleBit :: "BitField \<Rightarrow> bool" where
  "isSingleBit bits = (bits \<noteq> 0 \<and> js_and bits (bits - 1) = 0)"

text \<open>
  The value of a string of binary digits read in base 2, used to say what a rendering
  denotes.
\<close>

definition binaryValue :: "string \<Rightarrow> int" where
  "binaryValue s = foldl (\<lambda>acc c. 2 * acc + (if c = CHR ''1'' then 1 else 0)) 0 s"

section \<open>named.ts\<close>

text \<open>
  A named collection is an ordinary object: a finite map from property names to values
  (its own properties), in front of \<open>Object.prototype\<close>.  Reading a property that the
  object does not own falls through to the prototype, whose members are listed in
  \<open>objectPrototypeKeys\<close>; a name found nowhere reads as \<open>undefined\<close>.
\<close>

type_synonym jsobject = "string \<rightharpoonup> jsvalue"

definition objectPrototypeKeys :: "string list" where
  "objectPrototypeKeys =
     [''constructor'', ''__defineGetter__'', ''__defineSetter__'', ''hasOwnProperty'',
      ''__lookupGetter__'', ''__lookupSetter__'', ''isPrototypeOf'',
      ''propertyIsEnumerable'', ''toString'', ''valueOf'', ''__proto__'',
      ''toLocaleString'']"

definition getProp :: "jsobject \<Rightarrow> string \<Rightarrow> jsvalue" where
  "getProp obj k =
     (case obj k of
        Some v \<Rightarrow> v
      | None \<Rightarrow> if k \<in> set objectPrototypeKeys then Builtin else Undefined)"

text \<open>
  Assignment \<open>obj[k] = v\<close>.  When the object has no own property \<open>__proto__\<close> the
  assignment reaches the setter inherited from \<open>Object.prototype\<close>, which ignores a value
  that is not an object and creates no property.  The library assigns only numbers under
  caller-chosen names, and its one function under the name \<open>mask\<close>.
\<close>

definition setProp :: "jsobject \<Rightarrow> string \<Rightarrow> jsvalue \<Rightarrow> jsobject" where
  "setProp obj k v = (if k = ''__proto__'' \<and> obj k = None then obj else obj(k \<mapsto> v))"

text \<open>
  The arrow function \<open>(name) => bitMask(result[name])\<close>, applied to the collection that
  holds it.  (\<open>mask\<close> itself is a constant of the word library.)
\<close>

definition mask_fn :: "jsobject \<Rightarrow> string \<Rightarrow> BitField" where
  "mask_fn result name = bitMask (getProp result name)"

text \<open>
  \<open>defineBitFlags\<close>: the spread \<open>{ ...definition }\<close> copies every own entry as an own
  data property; then \<open>mask\<close> is assigned.
\<close>

definition defineBitFlags :: "(string \<rightharpoonup> int) \<Rightarrow> jsobject" where
  "defineBitFlags defn = setProp (map_option Num \<circ> defn) ''mask'' Closure"

text \<open>\<open>names.forEach((name, index) => (result[name] = index))\<close>, from a given index on.\<close>

fun forEach_assign :: "jsobject \<Rightarrow> string list \<Rightarrow> nat \<Rightarrow> jsobject" where
  "forEach_assign result [] index = result"
| "forEach_assign result (name # names) index =
     forEach_assign (setProp result name (Num (int index))) names (Suc index)"

definition defineBitEnum :: "string list \<Rightarrow> jsobject" where
  "defineBitEnum names = setProp (forEach_assign Map.empty names 0) ''mask'' Closure"

section \<open>The operators on 32-bit patterns\<close>

lemma uint_ToInt32: "isBitField b \<Longrightarrow> uint (ToInt32 b) = b"
  by (simp add: isBitField_def ToInt32_def uint_word_of_int)

lemma ToInt32_uint: "ToInt32 (uint w) = w"
  by (simp add: ToInt32_def)

lemma ToInt32_sint: "ToInt32 (sint w) = w"
  by (simp add: ToInt32_def)

lemma js_ushr_0: "js_ushr a 0 = uint (ToInt32 a)"
  by (simp add: js_ushr_def ToInt32_def)

lemma toggleMask_word: "toggleMask bits msk = uint (ToInt32 bits XOR ToInt32 msk)"
  by (simp add: toggleMask_def js_ushr_0 js_xor_def ToInt32_sint)

lemma applyMask_word: "applyMask bits msk = uint (ToInt32 bits OR ToInt32 msk)"
  by (simp add: applyMask_def js_ushr_0 js_or_def ToInt32_sint)

lemma clearMask_word: "clearMask bits msk = sint (ToInt32 bits AND NOT (ToInt32 msk))"
  by (simp add: clearMask_def js_and_def js_not_def ToInt32_sint)

lemma checkMask_word: "checkMask bits msk = (ToInt32 bits AND ToInt32 msk \<noteq> 0)"
  by (simp add: checkMask_def js_and_def signed_eq_0_iff)

lemma bitMask_word:
  "bitMask i = uint (push_bit (unat (ToInt32 (ToIntegral i) AND 31)) (1 :: 32 word))"
  by (simp add: bitMask_def js_ushr_0 js_shl_def ToInt32_sint) (simp add: ToInt32_def)

lemma ToInt32_ALL: "ToInt32 ALL_bits = - 1"
  by (simp add: ALL_bits_def js_ushr_0 js_not_def ToInt32_sint ToInt32_uint)
     (simp add: ToInt32_def)

lemma ALL_bits_eq: "ALL_bits = 4294967295"
  by (simp add: ALL_bits_def js_ushr_0 js_not_def ToInt32_sint)
     (simp add: ToInt32_def unsigned_minus_1_eq_mask mask_eq_exp_minus_1)

section \<open>Mask algebra\<close>

text \<open>
  \<open>clearMask\<close> always produces the right 32-bit pattern, and clearing with \<open>ALL\<close> gives
  \<open>NONE\<close>.  It returns the pattern as a signed number, though, so it hands back its input
  only below \<open>2 ^ 31\<close>.
\<close>

lemma clearMask_pattern: "ToInt32 (clearMask bits msk) = ToInt32 bits AND NOT (ToInt32 msk)"
  by (simp add: clearMask_word ToInt32_sint)

lemma clearMask_ALL: "clearMask bits ALL_bits = NONE"
  by (simp add: clearMask_word ToInt32_ALL NONE_def)

lemma clearMask_NONE_small:
  "0 \<le> bits \<Longrightarrow> bits < 2 ^ 31 \<Longrightarrow> clearMask bits NONE = bits"
  by (simp add: clearMask_word NONE_def ToInt32_def sint_sbintrunc' signed_take_bit_int_eq_self)

text \<open>
  Claim C1.  \<open>clearMask(bits, NONE)\<close> should equal \<open>bits\<close> for every BitField.  At
  \<open>bits = 0x80000000\<close>, an unsigned 32-bit value, the code returns \<open>-2147483648\<close>:
  \<open>bits & ~mask\<close> is not brought back to an unsigned number, as \<open>applyMask\<close>,
  \<open>toggleMask\<close> and \<open>bitMask\<close> do with \<open>>>> 0\<close>.
\<close>

theorem clearMask_NONE_signed:
  "isBitField 2147483648 \<and> clearMask 2147483648 NONE = - 2147483648
     \<and> clearMask 2147483648 NONE \<noteq> 2147483648"
  by (simp add: isBitField_def clearMask_def NONE_def js_and_def js_not_def ToInt32_def)

text \<open>
  Claim C5.  Toggling twice with the same mask gives back the BitField, whatever number
  the mask is.
\<close>

theorem toggleMask_self_inverse:
  assumes "isBitField bits"
  shows "toggleMask (toggleMask bits msk) msk = bits"
proof -
  have "(ToInt32 bits XOR ToInt32 msk) XOR ToInt32 msk = ToInt32 bits"
    by (metis bit.xor_left_self xor.commute)
  then have "toggleMask (toggleMask bits msk) msk = uint (ToInt32 bits)"
    by (simp add: toggleMask_word ToInt32_uint)
  then show ?thesis
    using assms by (simp add: uint_ToInt32)
qed

theorem toggleMask_self_inverse_witness:
  "isBitField 4042322160 \<and>
   toggleMask (toggleMask 4042322160 2863311530) 2863311530 = 4042322160"
  using toggleMask_self_inverse [of 4042322160 2863311530] by (simp add: isBitField_def)

section \<open>Single bits\<close>

lemma or_single_bit:
  fixes w :: "32 word"
  assumes "w AND 2 ^ k \<noteq> 0"
  shows "w OR 2 ^ k = w"
proof -
  from assms have "bit w k"
    by (simp add: and_exp_eq_0_iff_not_bit)
  show ?thesis
  proof (rule bit_word_eqI)
    fix n
    assume "n < LENGTH(32)"
    show "bit (w OR 2 ^ k) n = bit w n"
      using \<open>bit w k\<close> by (auto simp: bit_or_iff bit_exp_iff)
  qed
qed

text \<open>Setting a bit that is already set changes nothing, at every index.\<close>

lemma setBitOn_idempotent:
  assumes "isBitField bits" and "getBit bits i"
  shows "setBitOn bits i = bits"
  using assms
  by (simp add: getBit_def setBitOn_def applyMask_word checkMask_word bitMask_word
      ToInt32_uint or_single_bit uint_ToInt32)

lemma and_not_single_bit:
  fixes w :: "32 word"
  assumes "w AND 2 ^ k = 0"
  shows "w AND NOT (2 ^ k) = w"
proof -
  from assms have "\<not> bit w k"
    by (simp add: and_exp_eq_0_iff_not_bit)
  show ?thesis
  proof (rule bit_word_eqI)
    fix n
    assume "n < LENGTH(32)"
    then show "bit (w AND NOT (2 ^ k)) n = bit w n"
      using \<open>\<not> bit w k\<close> by (auto simp: bit_and_iff bit_not_iff bit_exp_iff)
  qed
qed

text \<open>
  Clearing a bit that is already clear leaves the 32-bit pattern as it is, and gives back
  the input itself below \<open>2 ^ 31\<close>.
\<close>

lemma setBitOff_idempotent_small:
  assumes "0 \<le> bits" and "bits < 2 ^ 31" and "\<not> getBit bits i"
  shows "setBitOff bits i = bits"
proof -
  have "ToInt32 bits AND NOT (2 ^ unat (ToInt32 i AND 31)) = ToInt32 bits"
    using assms(3)
    by (simp add: getBit_def checkMask_word bitMask_word ToInt32_uint and_not_single_bit)
  then have "setBitOff bits i = sint (ToInt32 bits)"
    by (simp add: setBitOff_def clearMask_word bitMask_word ToInt32_uint)
  then show ?thesis
    using assms(1,2) by (simp add: ToInt32_def sint_sbintrunc' signed_take_bit_int_eq_self)
qed

lemma setBitOff_pattern:
  assumes "\<not> getBit bits i"
  shows "ToInt32 (setBitOff bits i) = ToInt32 bits"
  using assms
  by (simp add: getBit_def setBitOff_def clearMask_pattern checkMask_word bitMask_word
      ToInt32_uint and_not_single_bit)

text \<open>
  Claim C4.  \<open>setBitOff\<close> on a bit that is already clear should return its input.  At
  \<open>bits = 0x80000000\<close> and index \<open>0\<close> (bit 0 is clear) the code returns \<open>-2147483648\<close>:
  \<open>setBitOff\<close> is \<open>clearMask\<close>, which returns the pattern as a signed number.
\<close>

theorem setBitOff_clear_bit_signed:
  "isBitField 2147483648 \<and> \<not> getBit 2147483648 0
     \<and> setBitOff 2147483648 0 = - 2147483648
     \<and> setBitOff 2147483648 0 \<noteq> 2147483648"
  by (simp add: isBitField_def getBit_def setBitOff_def checkMask_def clearMask_def
      bitMask_def js_and_def js_not_def js_ushr_def js_shl_def ToInt32_def)

section \<open>countBits and isSingleBit\<close>

text \<open>One run of the loop body on a number: the low bit is added, the value is halved.\<close>

lemma js_ushr_1: "js_ushr v 1 = (v mod 2 ^ 32) div 2"
proof -
  have "unat (ToInt32 1 AND 31) = 1"
    by (simp add: ToInt32_def)
  then have "js_ushr v 1 = uint (drop_bit 1 (ToInt32 v))"
    by (simp add: js_ushr_def)
  also have "\<dots> = uint (ToInt32 v) div 2"
    by (simp add: drop_bit_eq_div uint_div_distrib)
  finally show ?thesis
    by (simp add: ToInt32_def uint_word_of_int)
qed

lemma even_ToInt32: "even (ToInt32 v) = even v"
  by (simp add: ToInt32_def even_of_int_iff)

lemma js_and_1: "js_and v 1 = v mod 2"
proof -
  have "ToInt32 v AND 1 = (if odd v then 1 else 0)"
    by (simp add: and_one_eq mod2_eq_if even_ToInt32)
  then show ?thesis
    by (simp add: js_and_def mod2_eq_if) (simp add: ToInt32_def)
qed

lemma js_ushr_1_BitField: "isBitField v \<Longrightarrow> js_ushr v 1 = v div 2"
  by (simp add: js_ushr_1 isBitField_def)

lemma isBitField_half: "isBitField v \<Longrightarrow> isBitField (v div 2)"
  by (simp add: isBitField_def) linarith

text \<open>
  The set bits of a BitField, as the positions \<open>i\<close> with \<open>bit v i\<close>: all below 32, and
  their number is the low bit plus the number of set bits of the half.
\<close>

lemma bit_BitField:
  assumes "isBitField v" and "bit v i"
  shows "i < 32"
proof -
  have "take_bit 32 v = v"
    using assms(1) by (simp add: isBitField_def take_bit_int_eq_self)
  then have "bit v i = (i < 32 \<and> bit v i)"
    by (metis bit_take_bit_iff)
  then show ?thesis
    using assms(2) by simp
qed

lemma finite_bits: "isBitField v \<Longrightarrow> finite {i. bit v i}"
  by (rule finite_subset [of _ "{..<32}"]) (auto dest: bit_BitField)

lemma bits_unfold:
  "{i. bit (v :: int) i} = (if odd v then {0} else {}) \<union> Suc ` {i. bit (v div 2) i}"
proof (rule set_eqI)
  fix i
  show "i \<in> {i. bit v i} \<longleftrightarrow> i \<in> (if odd v then {0} else {}) \<union> Suc ` {i. bit (v div 2) i}"
    by (cases i) (auto simp: bit_0 bit_Suc)
qed

lemma card_bits_rec:
  assumes "isBitField v"
  shows "int (card {i. bit v i}) = v mod 2 + int (card {i. bit (v div 2) i})"
proof -
  have fin: "finite (Suc ` {i. bit (v div 2) i})"
    using assms by (simp add: finite_bits isBitField_half)
  have img: "card (Suc ` {i. bit (v div 2) i}) = card {i. bit (v div 2) i}"
    by (simp add: card_image)
  show ?thesis
  proof (cases "odd v")
    case True
    then have "{i. bit v i} = insert 0 (Suc ` {i. bit (v div 2) i})"
      using bits_unfold [of v] by simp
    then have "card {i. bit v i} = Suc (card {i. bit (v div 2) i})"
      using fin img by (simp add: card_insert_if image_iff)
    then show ?thesis
      using True by (simp add: mod2_eq_if)
  next
    case False
    then have "{i. bit v i} = Suc ` {i. bit (v div 2) i}"
      using bits_unfold [of v] by simp
    then show ?thesis
      using False img by (simp add: mod2_eq_if)
  qed
qed

text \<open>The loop adds the number of set bits to the count it starts from.\<close>

lemma countBits_loop_card:
  "isBitField v \<Longrightarrow> countBits_loop c v = c + int (card {i. bit v i})"
proof (induction c v rule: countBits_loop.induct)
  case (1 count val)
  show ?case
  proof (cases "val = 0")
    case True
    have "countBits_loop count val = count"
      using True by (subst countBits_loop.simps) simp
    moreover have "{i. bit val i} = {}"
      using True by auto
    ultimately show ?thesis
      by (simp only: card.empty)
  next
    case False
    have bf: "isBitField (js_ushr val 1)"
      using "1.prems" by (simp add: js_ushr_1_BitField isBitField_half)
    have "countBits_loop count val = countBits_loop (count + js_and val 1) (js_ushr val 1)"
      using False by (subst countBits_loop.simps) simp
    also have "\<dots> = count + js_and val 1 + int (card {i. bit (js_ushr val 1) i})"
      using "1.IH" [OF False bf] .
    also have "\<dots> = count + int (card {i. bit val i})"
      using "1.prems" card_bits_rec [of val]
      by (simp add: js_and_1 js_ushr_1_BitField)
    finally show ?thesis .
  qed
qed


lemma countBits_card: "isBitField bits \<Longrightarrow> countBits bits = int (card {i. bit bits i})"
  by (simp add: countBits_def countBits_loop_card)

lemma countBits_ALL: "countBits ALL_bits = 32"
proof -
  have "ALL_bits = mask 32"
    by (simp add: ALL_bits_eq mask_eq_exp_minus_1)
  moreover have "isBitField ALL_bits"
    by (simp add: ALL_bits_eq isBitField_def)
  ultimately have "countBits ALL_bits = int (card {i. bit (mask 32 :: int) i})"
    by (simp add: countBits_card)
  also have "{i. bit (mask 32 :: int) i} = {..<32}"
    by (auto simp: bit_mask_iff)
  finally show ?thesis
    by simp
qed

lemma countBits_zero_iff:
  assumes "isBitField bits"
  shows "countBits bits = 0 \<longleftrightarrow> bits = NONE"
proof -
  have "countBits bits = 0 \<longleftrightarrow> {i. bit bits i} = {}"
    using assms by (simp add: countBits_card finite_bits)
  also have "\<dots> \<longleftrightarrow> bits = 0"
  proof
    assume "{i. bit bits i} = {}"
    then have "\<not> bit bits n" for n
      by blast
    then show "bits = 0"
      by (intro bit_eqI) simp
  next
    assume "bits = 0"
    then show "{i. bit bits i} = {}"
      by simp
  qed
  finally show ?thesis
    by (simp add: NONE_def)
qed


lemma card_bits_zero_iff:
  assumes "isBitField v"
  shows "card {i. bit v i} = 0 \<longleftrightarrow> v = 0"
proof -
  have "card {i. bit v i} = 0 \<longleftrightarrow> {i. bit v i} = {}"
    using assms by (simp add: finite_bits)
  also have "\<dots> \<longleftrightarrow> v = 0"
  proof
    assume "{i. bit v i} = {}"
    then have "\<not> bit v n" for n
      by blast
    then show "v = 0"
      by (intro bit_eqI) simp
  next
    assume "v = 0"
    then show "{i. bit v i} = {}"
      by simp
  qed
  finally show ?thesis .
qed

text \<open>
  Clearing the lowest set bit with \<open>n AND (n - 1)\<close> leaves nothing exactly when \<open>n\<close> has one
  set bit.
\<close>

lemma and_pred_single_bit:
  "0 < n \<Longrightarrow> isBitField n \<Longrightarrow> (n AND (n - 1) = 0 \<longleftrightarrow> card {i. bit n i} = 1)"
proof (induction "nat n" arbitrary: n rule: less_induct)
  case less
  have rec: "int (card {i. bit n i}) = n mod 2 + int (card {i. bit (n div 2) i})"
    using less.prems by (simp add: card_bits_rec)
  have half: "isBitField (n div 2)"
    using less.prems by (simp add: isBitField_half)
  show ?case
  proof (cases "even n")
    case True
    then have pos: "0 < n div 2"
      using less.prems(1) by presburger
    have "(n - 1) div 2 = n div 2 - 1"
      using True by presburger
    then have "n AND (n - 1) = 2 * (n div 2 AND (n div 2 - 1))"
      using True by (subst and_int_rec) simp
    moreover have "nat (n div 2) < nat n"
      using less.prems(1) by simp
    ultimately have "n AND (n - 1) = 0 \<longleftrightarrow> card {i. bit (n div 2) i} = 1"
      using less.hyps [OF _ pos half] by simp
    then show ?thesis
      using rec True by simp
  next
    case False
    then have "(n - 1) div 2 = n div 2"
      by presburger
    then have "n AND (n - 1) = 2 * (n div 2)"
      using False by (subst and_int_rec) simp
    then have "n AND (n - 1) = 0 \<longleftrightarrow> n div 2 = 0"
      by simp
    moreover have "card {i. bit n i} = 1 \<longleftrightarrow> card {i. bit (n div 2) i} = 0"
      using rec False by (simp add: mod2_eq_if) linarith
    ultimately show ?thesis
      using half by (simp add: card_bits_zero_iff)
  qed
qed

lemma isSingleBit_int:
  assumes "isBitField bits"
  shows "isSingleBit bits \<longleftrightarrow> bits \<noteq> 0 \<and> bits AND (bits - 1) = 0"
proof (cases "bits = 0")
  case True
  then show ?thesis
    by (simp add: isSingleBit_def)
next
  case False
  then have pred: "isBitField (bits - 1)"
    using assms by (simp add: isBitField_def)
  have "js_and bits (bits - 1) = 0 \<longleftrightarrow> uint (ToInt32 bits AND ToInt32 (bits - 1)) = 0"
    by (simp add: js_and_def signed_eq_0_iff uint_0_iff)
  also have "\<dots> \<longleftrightarrow> bits AND (bits - 1) = 0"
    using assms pred by (simp add: unsigned_and_eq uint_ToInt32)
  finally show ?thesis
    using False by (simp add: isSingleBit_def)
qed

text \<open>
  Claim C6.  On every BitField, \<open>isSingleBit\<close> holds exactly when \<open>countBits\<close> is 1; it is
  false on \<open>NONE\<close>.
\<close>

theorem isSingleBit_iff_countBits:
  assumes "isBitField bits"
  shows "(isSingleBit bits \<longleftrightarrow> countBits bits = 1) \<and> \<not> isSingleBit NONE"
proof -
  have "isSingleBit bits \<longleftrightarrow> countBits bits = 1"
  proof (cases "bits = 0")
    case True
    then have "countBits bits = 0"
      using assms by (simp add: countBits_zero_iff NONE_def)
    with True show ?thesis
      by (simp add: isSingleBit_def)
  next
    case False
    then have "0 < bits"
      using assms by (simp add: isBitField_def)
    then show ?thesis
      using assms False by (simp add: isSingleBit_int and_pred_single_bit countBits_card)
  qed
  moreover have "\<not> isSingleBit NONE"
    by (simp add: isSingleBit_def NONE_def)
  ultimately show ?thesis
    by simp
qed


theorem isSingleBit_iff_countBits_witness:
  "isBitField 8 \<and> (isSingleBit 8 \<longleftrightarrow> countBits 8 = 1) \<and> \<not> isSingleBit NONE"
proof -
  have "isBitField 8"
    by (simp add: isBitField_def)
  with isSingleBit_iff_countBits [of 8] show ?thesis
    by blast
qed

lemma bits_below_width:
  assumes "isBitField bits"
  shows "{i. i < 32 \<and> bit bits i} = {i. bit bits i}"
  using assms by (auto dest: bit_BitField)

text \<open>
  Claim C7.  On every BitField, \<open>countBits\<close> is zero exactly for \<open>NONE\<close>, it is 32 on
  \<open>ALL\<close>, and it is the number of positions below 32 whose bit is set.
\<close>

theorem countBits_popcount:
  assumes "isBitField bits"
  shows "(countBits bits = 0 \<longleftrightarrow> bits = NONE) \<and> countBits ALL_bits = 32
     \<and> countBits bits = int (card {i. i < 32 \<and> bit bits i})"
proof (intro conjI)
  show "countBits bits = 0 \<longleftrightarrow> bits = NONE"
    using assms by (rule countBits_zero_iff)
  show "countBits ALL_bits = 32"
    by (rule countBits_ALL)
  show "countBits bits = int (card {i. i < 32 \<and> bit bits i})"
    using assms by (simp only: countBits_card bits_below_width)
qed

theorem countBits_popcount_witness:
  "isBitField 21 \<and> (countBits 21 = 0 \<longleftrightarrow> 21 = NONE) \<and> countBits ALL_bits = 32
     \<and> countBits 21 = int (card {i. i < 32 \<and> bit (21 :: int) i})"
proof -
  have "isBitField 21"
    by (simp add: isBitField_def)
  with countBits_popcount [of 21] show ?thesis
    by blast
qed

text \<open>A value below \<open>2 ^ n\<close> is used up by at most \<open>n\<close> runs of the loop body.\<close>

lemma countBits_fuel_enough:
  "0 \<le> v \<Longrightarrow> v < 2 ^ n \<Longrightarrow> n \<le> 32 \<Longrightarrow> countBits_fuel n c v = Some (countBits_loop c v)"
proof (induction n arbitrary: c v)
  case 0
  then have "v = 0"
    by simp
  then show ?case
    by (simp add: countBits_fuel.simps countBits_loop.simps)
next
  case (Suc n)
  show ?case
  proof (cases "v = 0")
    case True
    then show ?thesis
      by (simp add: countBits_fuel.simps countBits_loop.simps)
  next
    case False
    have "(2 :: int) ^ Suc n \<le> 2 ^ 32"
      using Suc.prems(3) by (intro power_increasing) simp_all
    then have "isBitField v"
      using Suc.prems by (simp add: isBitField_def)
    then have shift: "js_ushr v 1 = v div 2"
      by (rule js_ushr_1_BitField)
    have "v div 2 < 2 ^ n"
      using Suc.prems(2) by simp
    then have "countBits_fuel n (c + js_and v 1) (js_ushr v 1)
        = Some (countBits_loop (c + js_and v 1) (js_ushr v 1))"
      using Suc.prems Suc.IH [of "v div 2" "c + js_and v 1"] by (simp add: shift)
    moreover have "countBits_fuel (Suc n) c v = countBits_fuel n (c + js_and v 1) (js_ushr v 1)"
      using False by (subst countBits_fuel.simps) simp
    moreover have "countBits_loop c v = countBits_loop (c + js_and v 1) (js_ushr v 1)"
      using False by (subst countBits_loop.simps) simp
    ultimately show ?thesis
      by simp
  qed
qed

text \<open>
  Claim C10.  On every BitField the loop of \<open>countBits\<close> ends: the shift takes a non-zero
  BitField to a strictly smaller BitField, and 32 runs of the body are enough to reach the
  result.
\<close>

theorem countBits_terminates:
  assumes "isBitField bits"
  shows "(bits \<noteq> 0 \<longrightarrow> isBitField (js_ushr bits 1) \<and> js_ushr bits 1 < bits)
     \<and> countBits_fuel 32 0 bits = Some (countBits bits)"
proof -
  have "isBitField (js_ushr bits 1)"
    using assms by (simp add: js_ushr_1_BitField isBitField_half)
  moreover have "js_ushr bits 1 < bits" if "bits \<noteq> 0"
    using assms that by (simp add: js_ushr_1_BitField isBitField_def) linarith
  moreover have "countBits_fuel 32 0 bits = Some (countBits bits)"
    using assms by (simp add: countBits_fuel_enough countBits_def isBitField_def)
  ultimately show ?thesis
    by simp
qed

theorem countBits_terminates_witness:
  "isBitField 4294967295 \<and> 4294967295 \<noteq> (0 :: int) \<and> js_ushr 4294967295 1 < 4294967295
     \<and> countBits_fuel 32 0 4294967295 = Some (countBits 4294967295)"
proof -
  have "isBitField 4294967295"
    by (simp add: isBitField_def)
  with countBits_terminates [of 4294967295] show ?thesis
    by simp
qed

text \<open>The bound is reached: 31 runs are not enough for \<open>ALL\<close>.\<close>

lemma countBits_fuel_31: "countBits_fuel 31 0 4294967295 = None"
  by code_simp

section \<open>toBinaryString\<close>

text \<open>
  The digits of \<open>n\<close>: as many as \<open>n\<close> needs, each \<open>0\<close> or \<open>1\<close>, and read in base 2 they
  give \<open>n\<close> back.
\<close>

lemma binaryDigits_0: "binaryDigits 0 = []"
  by (simp add: binaryDigits.simps)

lemma binaryDigits_pos:
  "0 < n \<Longrightarrow> binaryDigits n = binaryDigits (n div 2) @ [if odd n then CHR ''1'' else CHR ''0'']"
  by (subst binaryDigits.simps) simp

lemma length_binaryDigits_le: "length (binaryDigits n) \<le> k \<longleftrightarrow> n < 2 ^ k"
proof (induction n arbitrary: k rule: binaryDigits.induct)
  case (1 n)
  show ?case
  proof (cases "n = 0")
    case True
    then show ?thesis
      by (simp add: binaryDigits_0)
  next
    case False
    show ?thesis
    proof (cases k)
      case 0
      then show ?thesis
        using False by (simp add: binaryDigits_pos)
    next
      case (Suc j)
      have "length (binaryDigits n) \<le> Suc j \<longleftrightarrow> length (binaryDigits (n div 2)) \<le> j"
        using False by (simp add: binaryDigits_pos)
      also have "\<dots> \<longleftrightarrow> n div 2 < 2 ^ j"
        using "1.IH" [OF False] .
      also have "\<dots> \<longleftrightarrow> n < 2 ^ Suc j"
        by auto
      finally show ?thesis
        using Suc by simp
    qed
  qed
qed

lemma set_binaryDigits: "set (binaryDigits n) \<subseteq> {CHR ''0'', CHR ''1''}"
proof (induction n rule: binaryDigits.induct)
  case (1 n)
  show ?case
  proof (cases "n = 0")
    case True
    then show ?thesis
      by (simp add: binaryDigits_0)
  next
    case False
    then show ?thesis
      using "1.IH" by (auto simp: binaryDigits_pos)
  qed
qed

lemma binaryValue_snoc:
  "binaryValue (s @ [c]) = 2 * binaryValue s + (if c = CHR ''1'' then 1 else 0)"
  by (simp add: binaryValue_def)

lemma binaryValue_binaryDigits: "binaryValue (binaryDigits n) = int n"
proof (induction n rule: binaryDigits.induct)
  case (1 n)
  show ?case
  proof (cases "n = 0")
    case True
    then show ?thesis
      by (simp add: binaryDigits_0 binaryValue_def)
  next
    case False
    have "binaryValue (binaryDigits n) = 2 * int (n div 2) + (if odd n then 1 else 0)"
      using False "1.IH" by (simp add: binaryDigits_pos binaryValue_snoc)
    also have "\<dots> = int n"
      by (simp add: mod2_eq_if zdiv_int)
    finally show ?thesis .
  qed
qed

text \<open>Zeros in front do not change the value; \<open>padStart\<close> only ever adds in front.\<close>

lemma binaryValue_zeros: "binaryValue (replicate k CHR ''0'' @ s) = binaryValue s"
proof -
  have "foldl (\<lambda>acc c. 2 * acc + (if c = CHR ''1'' then 1 else 0)) (0 :: int) (replicate k CHR ''0'') = 0"
    by (induction k) simp_all
  then show ?thesis
    by (simp add: binaryValue_def)
qed

lemma binaryValue_toString2: "0 \<le> bits \<Longrightarrow> binaryValue (toString2 bits) = bits"
  by (simp add: toString2_def binaryValue_binaryDigits) (simp add: binaryValue_def)

lemma set_toString2: "0 \<le> bits \<Longrightarrow> set (toString2 bits) \<subseteq> {CHR ''0'', CHR ''1''}"
  using set_binaryDigits by (simp add: toString2_def)

lemma length_toString2_le:
  assumes "0 \<le> bits" and "0 < k"
  shows "length (toString2 bits) \<le> k \<longleftrightarrow> bits < 2 ^ k"
proof (cases "bits = 0")
  case True
  then show ?thesis
    using assms(2) by (simp add: toString2_def)
next
  case False
  then have "length (toString2 bits) \<le> k \<longleftrightarrow> nat bits < 2 ^ k"
    using assms(1) by (simp add: toString2_def length_binaryDigits_le)
  also have "\<dots> \<longleftrightarrow> bits < 2 ^ k"
    using assms(1) by (simp add: nat_less_iff)
  finally show ?thesis .
qed

lemma toBinaryString_pad:
  "toBinaryString bits len =
     replicate (nat len - length (toString2 bits)) CHR ''0'' @ toString2 bits"
  by (simp add: toBinaryString_def padStart_def)

text \<open>
  Claim C2, as amended.  For a non-negative number (every BitField is one) and a positive
  length, \<open>toBinaryString\<close> returns the binary digits padded with \<open>0\<close> to at least
  \<open>length\<close> characters: the result is as long as the larger of \<open>length\<close> and the number
  of digits, so it has exactly \<open>length\<close> characters exactly when \<open>bits < 2 ^ length\<close>; it
  consists of \<open>0\<close> and \<open>1\<close>; and nothing is cut off, since its base-2 value is always
  \<open>bits\<close>.
\<close>

theorem toBinaryString_pads_never_truncates:
  assumes "0 \<le> bits" and "0 < len"
  shows "length (toBinaryString bits len) = max (nat len) (length (toString2 bits))
     \<and> (length (toBinaryString bits len) = nat len \<longleftrightarrow> bits < 2 ^ nat len)
     \<and> set (toBinaryString bits len) \<subseteq> {CHR ''0'', CHR ''1''}
     \<and> binaryValue (toBinaryString bits len) = bits"
proof (intro conjI)
  show len_eq: "length (toBinaryString bits len) = max (nat len) (length (toString2 bits))"
    by (simp add: toBinaryString_pad)
  have "length (toBinaryString bits len) = nat len \<longleftrightarrow> length (toString2 bits) \<le> nat len"
    unfolding len_eq by linarith
  also have "\<dots> \<longleftrightarrow> bits < 2 ^ nat len"
    using assms by (simp add: length_toString2_le)
  finally show "length (toBinaryString bits len) = nat len \<longleftrightarrow> bits < 2 ^ nat len" .
  show "set (toBinaryString bits len) \<subseteq> {CHR ''0'', CHR ''1''}"
    using set_toString2 [OF assms(1)] by (auto simp: toBinaryString_pad)
  show "binaryValue (toBinaryString bits len) = bits"
    using assms(1) by (simp only: toBinaryString_pad binaryValue_zeros binaryValue_toString2)
qed

theorem toBinaryString_pads_never_truncates_witness:
  "(0 :: int) \<le> 5 \<and> (0 :: int) < 8 \<and> toBinaryString 5 8 = ''00000101''
     \<and> length (toBinaryString 5 8) = 8 \<and> binaryValue (toBinaryString 5 8) = 5"
proof -
  have "toBinaryString 5 8 = ''00000101''"
    by code_simp
  with toBinaryString_pads_never_truncates [of 5 8] show ?thesis
    by simp
qed

text \<open>
  Claim C2 as stated fails: \<open>5\<close> needs three digits, and with length \<open>2\<close> the result is
  \<open>101\<close>, three characters long, not the low-order \<open>01\<close>.
\<close>

theorem toBinaryString_longer_than_length:
  "isBitField 5 \<and> toBinaryString 5 2 = ''101'' \<and> length (toBinaryString 5 2) \<noteq> 2"
proof -
  have "toBinaryString 5 2 = ''101''"
    by code_simp
  then show ?thesis
    by (simp add: isBitField_def)
qed

section \<open>Named collections\<close>

text \<open>A shift count that is not a number counts as zero, so \<open>bitMask\<close> gives 1.\<close>

lemma bitMask_0: "bitMask (Num 0) = 1"
  by (simp add: bitMask_def js_ushr_def js_shl_def ToInt32_def)

lemma bitMask_not_number: "ToIntegral v = 0 \<Longrightarrow> bitMask v = 1"
  by (simp add: bitMask_def js_ushr_def js_shl_def ToInt32_def)

text \<open>Reading and writing properties.\<close>

lemma getProp_own: "obj k = Some v \<Longrightarrow> getProp obj k = v"
  by (simp add: getProp_def)

lemma getProp_missing: "obj k = None \<Longrightarrow> ToIntegral (getProp obj k) = 0"
  by (simp add: getProp_def)

lemma setProp_other: "k \<noteq> name \<Longrightarrow> setProp obj k v name = obj name"
  by (simp add: setProp_def)

lemma setProp_same: "k \<noteq> ''__proto__'' \<Longrightarrow> setProp obj k v k = Some v"
  by (simp add: setProp_def)

lemma defineBitFlags_own:
  "defineBitFlags defn name = (if name = ''mask'' then Some Closure else map_option Num (defn name))"
  by (simp add: defineBitFlags_def setProp_def)

text \<open>
  Claim C3, as amended.  For every name of the definition other than \<open>mask\<close>, the
  collection returned by \<open>defineBitFlags\<close> holds the supplied position unchanged, and the
  accessor gives \<open>bitMask\<close> of that entry.
\<close>

theorem defineBitFlags_keeps_positions:
  assumes "defn name = Some position" and "name \<noteq> ''mask''"
  shows "getProp (defineBitFlags defn) name = Num position
     \<and> mask_fn (defineBitFlags defn) name = bitMask (getProp (defineBitFlags defn) name)
     \<and> mask_fn (defineBitFlags defn) name = bitMask (Num position)"
  using assms by (simp add: mask_fn_def getProp_own defineBitFlags_own)

theorem defineBitFlags_keeps_positions_witness:
  "[''READ'' \<mapsto> 0, ''WRITE'' \<mapsto> 1, ''DELETE'' \<mapsto> 2, ''ADMIN'' \<mapsto> (5 :: int)] ''ADMIN'' = Some 5
     \<and> ''ADMIN'' \<noteq> ''mask''
     \<and> getProp (defineBitFlags [''READ'' \<mapsto> 0, ''WRITE'' \<mapsto> 1, ''DELETE'' \<mapsto> 2, ''ADMIN'' \<mapsto> 5])
           ''ADMIN'' = Num 5
     \<and> mask_fn (defineBitFlags [''READ'' \<mapsto> 0, ''WRITE'' \<mapsto> 1, ''DELETE'' \<mapsto> 2, ''ADMIN'' \<mapsto> 5])
           ''ADMIN'' = 32"
proof -
  have "bitMask (Num 5) = 32"
    by (simp add: bitMask_def js_ushr_def js_shl_def ToInt32_def)
  with defineBitFlags_keeps_positions
    [of "[''READ'' \<mapsto> 0, ''WRITE'' \<mapsto> 1, ''DELETE'' \<mapsto> 2, ''ADMIN'' \<mapsto> 5]" "''ADMIN''" 5]
  show ?thesis
    by simp
qed

text \<open>
  Claim C3 as stated fails for the name \<open>mask\<close>: the entry copied from the definition is
  replaced by the accessor, so the collection does not hold the supplied position \<open>3\<close>.
\<close>

theorem defineBitFlags_mask_key_overwritten:
  "[''mask'' \<mapsto> (3 :: int)] ''mask'' = Some 3
     \<and> getProp (defineBitFlags [''mask'' \<mapsto> 3]) ''mask'' = Closure
     \<and> getProp (defineBitFlags [''mask'' \<mapsto> 3]) ''mask'' \<noteq> Num 3"
  by (simp add: getProp_def defineBitFlags_own)

text \<open>
  The \<open>forEach\<close> of \<open>defineBitEnum\<close>: it never creates a property \<open>__proto__\<close>, leaves
  names outside the sequence alone, and gives the last occurrence of a name its index.
\<close>

lemma forEach_assign_proto:
  "result ''__proto__'' = None \<Longrightarrow> forEach_assign result names index ''__proto__'' = None"
  by (induction result names index rule: forEach_assign.induct) (simp_all add: setProp_def)

lemma forEach_assign_absent:
  "name \<notin> set names \<Longrightarrow> forEach_assign result names index name = result name"
  by (induction result names index rule: forEach_assign.induct) (auto simp: setProp_def)

lemma forEach_assign_last:
  assumes "k < length names" and "names ! k \<noteq> ''__proto__''"
    and "names ! k \<notin> set (drop (Suc k) names)"
  shows "forEach_assign result names index (names ! k) = Some (Num (int (index + k)))"
  using assms
proof (induction result names index arbitrary: k rule: forEach_assign.induct)
  case (1 result index)
  then show ?case
    by simp
next
  case (2 result name names index)
  show ?case
  proof (cases k)
    case 0
    then have "name \<notin> set names" and "name \<noteq> ''__proto__''"
      using "2.prems" by simp_all
    then show ?thesis
      using 0 by (simp add: forEach_assign_absent setProp_same)
  next
    case (Suc j)
    then show ?thesis
      using "2.prems" "2.IH" [of j] by simp
  qed
qed

lemma dom_forEach_assign:
  "result ''__proto__'' = None \<Longrightarrow>
   dom (forEach_assign result names index) = dom result \<union> (set names - {''__proto__''})"
proof (induction result names index rule: forEach_assign.induct)
  case (1 result index)
  then show ?case
    by simp
next
  case (2 result name names index)
  have "setProp result name (Num (int index)) ''__proto__'' = None"
    using "2.prems" by (simp add: setProp_def)
  then show ?case
    using "2.IH" "2.prems" by (auto simp: setProp_def split: if_splits)
qed

text \<open>
  Claim C8, as amended.  In the collection returned by \<open>defineBitEnum\<close>, a name other than
  \<open>mask\<close> and \<open>__proto__\<close> holds the 0-based index of its last occurrence in the sequence;
  with no names the collection has the single member \<open>mask\<close>, the accessor.
\<close>

theorem defineBitEnum_positions:
  assumes "k < length names" and "names ! k \<noteq> ''mask''" and "names ! k \<noteq> ''__proto__''"
    and "names ! k \<notin> set (drop (Suc k) names)"
  shows "getProp (defineBitEnum names) (names ! k) = Num (int k)
     \<and> dom (defineBitEnum []) = {''mask''} \<and> getProp (defineBitEnum []) ''mask'' = Closure"
proof (intro conjI)
  have "defineBitEnum names (names ! k) = forEach_assign Map.empty names 0 (names ! k)"
    using assms(2) by (simp add: defineBitEnum_def setProp_def)
  also have "\<dots> = Some (Num (int k))"
    using forEach_assign_last [OF assms(1,3,4), of Map.empty 0] by simp
  finally show "getProp (defineBitEnum names) (names ! k) = Num (int k)"
    by (rule getProp_own)
  show "dom (defineBitEnum []) = {''mask''}"
    by (simp add: defineBitEnum_def setProp_def)
  show "getProp (defineBitEnum []) ''mask'' = Closure"
    by (simp add: defineBitEnum_def setProp_def getProp_def)
qed

theorem defineBitEnum_positions_witness:
  "1 < length [''GUEST'', ''ADMIN'', ''GUEST''] \<and> 2 < length [''GUEST'', ''ADMIN'', ''GUEST'']
     \<and> getProp (defineBitEnum [''GUEST'', ''ADMIN'', ''GUEST'']) ''ADMIN'' = Num 1
     \<and> getProp (defineBitEnum [''GUEST'', ''ADMIN'', ''GUEST'']) ''GUEST'' = Num 2
     \<and> dom (defineBitEnum []) = {''mask''}"
  using defineBitEnum_positions [of 1 "[''GUEST'', ''ADMIN'', ''GUEST'']"]
    defineBitEnum_positions [of 2 "[''GUEST'', ''ADMIN'', ''GUEST'']"]
  by simp

text \<open>
  Claim C8 as stated fails for two names.  Given the one name \<open>mask\<close>, the collection holds
  the accessor under it, not the index \<open>0\<close>; given the one name \<open>__proto__\<close>, the
  assignment creates no property and the name reads as the prototype.
\<close>

theorem defineBitEnum_reserved_names:
  "getProp (defineBitEnum [''mask'']) ''mask'' = Closure
     \<and> getProp (defineBitEnum [''mask'']) ''mask'' \<noteq> Num 0
     \<and> getProp (defineBitEnum [''__proto__'']) ''__proto__'' = Builtin
     \<and> getProp (defineBitEnum [''__proto__'']) ''__proto__'' \<noteq> Num 0"
  by (simp add: defineBitEnum_def setProp_def getProp_def objectPrototypeKeys_def)

text \<open>
  Claim C9.  In a collection built by either factory, the accessor applied to a name that
  is not a key returns \<open>bitMask(0)\<close>, which is 1: the lookup gives \<open>undefined\<close> (or a member
  inherited from \<open>Object.prototype\<close>), and the shift counts that as zero.  No branch of the
  accessor fails.
\<close>

theorem mask_of_unknown_name:
  assumes "result = defineBitFlags defn \<or> result = defineBitEnum names"
    and "name \<notin> dom result"
  shows "mask_fn result name = bitMask (Num 0) \<and> bitMask (Num 0) = 1
     \<and> bitMask Undefined = bitMask (Num 0)
     \<and> (name \<notin> set objectPrototypeKeys \<longrightarrow> getProp result name = Undefined)"
proof -
  have none: "result name = None"
    using assms(2) by blast
  then have "mask_fn result name = 1"
    by (simp add: mask_fn_def bitMask_not_number getProp_missing)
  moreover have "getProp result name = Undefined" if "name \<notin> set objectPrototypeKeys"
    using none that by (simp add: getProp_def)
  ultimately show ?thesis
    by (simp add: bitMask_0 bitMask_not_number)
qed

theorem mask_of_unknown_name_witness:
  "''OWNER'' \<notin> dom (defineBitEnum [''GUEST'', ''ADMIN''])
     \<and> ''OWNER'' \<notin> dom (defineBitFlags [''READ'' \<mapsto> 0])
     \<and> mask_fn (defineBitEnum [''GUEST'', ''ADMIN'']) ''OWNER'' = 1
     \<and> mask_fn (defineBitFlags [''READ'' \<mapsto> 0]) ''OWNER'' = 1
     \<and> getProp (defineBitEnum [''GUEST'', ''ADMIN'']) ''OWNER'' = Undefined"
proof -
  have a: "''OWNER'' \<notin> dom (defineBitEnum [''GUEST'', ''ADMIN''])"
    by (simp add: defineBitEnum_def setProp_def dom_def)
  have b: "''OWNER'' \<notin> dom (defineBitFlags [''READ'' \<mapsto> 0])"
    by (simp add: defineBitFlags_own dom_def)
  have c: "''OWNER'' \<notin> set objectPrototypeKeys"
    by (simp add: objectPrototypeKeys_def)
  show ?thesis
    using a b c
      mask_of_unknown_name [of "defineBitEnum [''GUEST'', ''ADMIN'']" Map.empty
        "[''GUEST'', ''ADMIN'']" "''OWNER''"]
      mask_of_unknown_name [of "defineBitFlags [''READ'' \<mapsto> 0]" "[''READ'' \<mapsto> 0]" "[]"
        "''OWNER''"]
    by simp
qed

end
